theory Spec2Isabelle
  imports Complex_Main "HOL-Library.AList"
begin

section \<open>JavaScript numbers\<close>

text \<open>
  The service computes with JavaScript numbers, that is IEEE 754 binary64. A finite
  binary64 value is a rational, so a number is a \<^typ>\<open>rat\<close> here and every arithmetic
  operator of the source is the exact operation followed by \<open>fl\<close>, the rounding to the
  nearest value with a 53 bit significand, ties to the even significand.

  Outside the model: the exponent is unbounded (no overflow to Infinity, no gradual
  underflow) and \<open>-0\<close> is \<open>0\<close>. The amounts are read from a \<open>decimal(10, 2)\<close> column, so
  they are below \<open>10^8\<close> in magnitude; the program compares with zero and never
  divides by a zero, so the sign of a zero is not observable.
\<close>

function bits :: "int \<Rightarrow> int" where
  "bits n = (if n \<le> 0 then 0 else bits (n div 2) + 1)"
  by pat_completeness auto
termination
  by (relation "measure nat") auto

declare bits.simps [simp del]

definition pow2 :: "int \<Rightarrow> rat" where
  "pow2 e = (if 0 \<le> e then of_int (2 ^ nat e) else 1 / of_int (2 ^ nat (- e)))"

text \<open>For \<open>a > 0\<close>, \<open>exponent a\<close> is the \<open>e\<close> with \<open>2^e \<le> a < 2^(e+1)\<close>.\<close>

definition exponent :: "rat \<Rightarrow> int" where
  "exponent a =
     (let (p, q) = quotient_of a;
          k = bits p - bits q
      in if pow2 k \<le> a then k else k - 1)"

definition roundTiesToEven :: "rat \<Rightarrow> int" where
  "roundTiesToEven q =
     (let f = \<lfloor>q\<rfloor>; r = q - of_int f
      in if r < 1 / 2 then f
         else if 1 / 2 < r then f + 1
         else if even f then f else f + 1)"

definition fl :: "rat \<Rightarrow> rat" where
  "fl x =
     (if x = 0 then 0
      else let a = \<bar>x\<bar>; e = exponent a - 52
           in sgn x * of_int (roundTiesToEven (a / pow2 e)) * pow2 e)"

definition fadd :: "rat \<Rightarrow> rat \<Rightarrow> rat" where
  "fadd x y = fl (x + y)"

definition fsub :: "rat \<Rightarrow> rat \<Rightarrow> rat" where
  "fsub x y = fl (x - y)"

definition fmul :: "rat \<Rightarrow> rat \<Rightarrow> rat" where
  "fmul x y = fl (x * y)"

definition fdiv :: "rat \<Rightarrow> rat \<Rightarrow> rat" where
  "fdiv x y = fl (x / y)"

text \<open>
  \<open>Number(e.amount)\<close>: the decimal value of the column, converted to the nearest
  binary64 value.
\<close>

definition Number_of :: "rat \<Rightarrow> rat" where
  "Number_of d = fl d"

text \<open>
  \<open>Math.round\<close> is the closest integer, a tie going up; on a binary64 argument the
  result is exact. \<open>Math.min\<close> and unary minus are exact as well.
\<close>

definition Math_round :: "rat \<Rightarrow> rat" where
  "Math_round x = of_int \<lfloor>x + 1 / 2\<rfloor>"

definition Math_min :: "rat \<Rightarrow> rat \<Rightarrow> rat" where
  "Math_min x y = min x y"

text \<open>The source's \<open>Math.round(x * 100) / 100\<close>.\<close>

definition round2 :: "rat \<Rightarrow> rat" where
  "round2 x = fdiv (Math_round (fmul x 100)) 100"


section \<open>Strings\<close>

text \<open>
  A \<^typ>\<open>char\<close> stands for a UTF-16 code unit below 256. \<open>trim\<close> removes the white
  space and line terminators of ECMAScript in that range from both ends.
\<close>

definition is_white_space :: "char \<Rightarrow> bool" where
  "is_white_space c =
     (c \<in> set [CHR 0x09, CHR 0x0A, CHR 0x0B, CHR 0x0C, CHR 0x0D, CHR 0x20, CHR 0xA0])"

definition trim :: "string \<Rightarrow> string" where
  "trim s = rev (dropWhile is_white_space (rev (dropWhile is_white_space s)))"

text \<open>\<open>s.split(sep)\<close> for a separator of one character: \<open>''''.split('','')\<close> is \<open>['''']\<close>.\<close>

fun split_on :: "char \<Rightarrow> string \<Rightarrow> string list" where
  "split_on sep [] = [[]]"
| "split_on sep (c # cs) =
     (if c = sep then [] # split_on sep cs
      else (case split_on sep cs of
              [] \<Rightarrow> [[c]]
            | w # ws \<Rightarrow> (c # w) # ws))"

text \<open>\<open>xs.join(sep)\<close>.\<close>

fun join :: "char \<Rightarrow> string list \<Rightarrow> string" where
  "join sep [] = []"
| "join sep [x] = x"
| "join sep (x # y # ys) = x @ sep # join sep (y # ys)"


section \<open>Expense records\<close>

text \<open>
  \<open>CreateExpenseDto\<close> and the columns of \<open>Expense\<close> that the service writes; \<open>id\<close> and
  \<open>createdAt\<close> are generated by the store and are not read by the computation.
\<close>

record CreateExpenseDto =
  dto_payerName :: string
  dto_amount :: rat
  dto_description :: string
  dto_participants :: "string list"

record Expense =
  payerName :: string
  amount :: rat
  description :: string
  participants :: string

text \<open>\<open>create\<close>, up to the save: the participants are stored joined with commas.\<close>

definition create :: "CreateExpenseDto \<Rightarrow> Expense" where
  "create dto =
     \<lparr>payerName = dto_payerName dto,
      amount = dto_amount dto,
      description = dto_description dto,
      participants = join CHR '','' (dto_participants dto)\<rparr>"

text \<open>The parsing at the head of the loop over the expenses.\<close>

definition parse_participants :: "string \<Rightarrow> string list" where
  "parse_participants s = filter (\<lambda>p. p \<noteq> []) (map trim (split_on CHR '','' s))"


text \<open>
  The form of the front end: \<open>parseParticipantsInput(participantsInput).map((p) => p.name)\<close>
  on a string. Each entry is cut at its first colon; the count after the colon is parsed
  and then dropped by the \<open>map\<close>, so only the names are posted.
\<close>

definition submitted_participants :: "string \<Rightarrow> string list" where
  "submitted_participants input =
     filter (\<lambda>name. name \<noteq> [])
       (map (\<lambda>s. trim (hd (split_on CHR '':'' s)))
         (filter (\<lambda>s. s \<noteq> []) (map trim (split_on CHR '','' input))))"


section \<open>The balances object\<close>

text \<open>
  \<open>balances\<close> is a plain object. Its own properties are an association list in creation
  order, with distinct keys. A value is a number, or, under a key that \<open>Object.prototype\<close>
  also has, the string that \<open>+=\<close> makes of the inherited function and the amount: it
  reads as \<open>NaN\<close> wherever a number is expected.
\<close>

datatype jsvalue = Number rat | NonNumeric

type_synonym balances = "(string \<times> jsvalue) list"

definition Object_prototype_keys :: "string list" where
  "Object_prototype_keys =
     [''constructor'', ''__defineGetter__'', ''__defineSetter__'', ''hasOwnProperty'',
      ''__lookupGetter__'', ''__lookupSetter__'', ''isPrototypeOf'',
      ''propertyIsEnumerable'', ''toString'', ''valueOf'', ''__proto__'',
      ''toLocaleString'']"

text \<open>
  \<open>addBalance\<close>: \<open>if (!balances[name]) balances[name] = 0; balances[name] += amount\<close>.
  An own number is added to (a zero is first overwritten by \<open>0\<close>); an own string grows
  and stays a string; a missing key starts at \<open>0\<close>, unless the prototype has it: then the
  first line sees a truthy function and the second stores a string, except for
  \<open>__proto__\<close>, whose setter drops a string.
\<close>

definition addBalance :: "balances \<Rightarrow> string \<Rightarrow> rat \<Rightarrow> balances" where
  "addBalance balances name amt =
     (case map_of balances name of
        Some (Number b) \<Rightarrow>
          AList.update name (Number (fadd (if b = 0 then 0 else b) amt)) balances
      | Some NonNumeric \<Rightarrow> balances
      | None \<Rightarrow>
          if name = ''__proto__'' then balances
          else if name \<in> set Object_prototype_keys
            then AList.update name NonNumeric balances
            else AList.update name (Number (fadd 0 amt)) balances)"

text \<open>The body of the loop over the expenses, and the loop.\<close>

definition process_expense :: "balances \<Rightarrow> Expense \<Rightarrow> balances" where
  "process_expense balances e =
     (let ps = parse_participants (participants e)
      in if length ps = 0 then balances
         else let share = fdiv (Number_of (amount e)) (of_nat (length ps));
                  balances' = foldl (\<lambda>b p. addBalance b p (- share)) balances ps
              in addBalance balances' (payerName e) (Number_of (amount e)))"

definition accumulate :: "Expense list \<Rightarrow> balances" where
  "accumulate expenses = foldl process_expense [] expenses"


section \<open>Creditors and debtors\<close>

text \<open>
  \<open>Object.entries\<close> lists the keys that are array indices first, in ascending numeric
  order, then the other keys in creation order.
\<close>

definition index_value :: "string \<Rightarrow> nat" where
  "index_value s = foldl (\<lambda>n c. 10 * n + (of_char c - 48)) 0 s"

definition is_array_index :: "string \<Rightarrow> bool" where
  "is_array_index s =
     (s \<noteq> [] \<and> list_all (\<lambda>c. c \<in> set ''0123456789'') s
      \<and> (length s = 1 \<or> hd s \<in> set ''123456789'')
      \<and> index_value s < 4294967295)"

definition Object_entries :: "balances \<Rightarrow> (string \<times> jsvalue) list" where
  "Object_entries balances =
     sort_key (\<lambda>kv. index_value (fst kv)) (filter (\<lambda>kv. is_array_index (fst kv)) balances)
     @ filter (\<lambda>kv. \<not> is_array_index (fst kv)) balances"

record Party =
  party_name :: string
  party_amount :: rat

text \<open>
  \<open>rounded\<close> of the loop over the entries; \<open>None\<close> is \<open>NaN\<close>, for which both comparisons
  are false.
\<close>

definition rounded :: "jsvalue \<Rightarrow> rat option" where
  "rounded v = (case v of Number b \<Rightarrow> Some (round2 b) | NonNumeric \<Rightarrow> None)"

text \<open>One entry of the loop: the state is the pair \<open>(creditors, debtors)\<close>.\<close>

definition classify :: "Party list \<times> Party list \<Rightarrow> string \<times> jsvalue \<Rightarrow> Party list \<times> Party list" where
  "classify cd entry =
     (case rounded (snd entry) of
        None \<Rightarrow> cd
      | Some r \<Rightarrow>
          if 0 < r then (fst cd @ [\<lparr>party_name = fst entry, party_amount = r\<rparr>], snd cd)
          else if r < 0 then (fst cd, snd cd @ [\<lparr>party_name = fst entry, party_amount = - r\<rparr>])
          else cd)"

definition partition_parties :: "balances \<Rightarrow> Party list \<times> Party list" where
  "partition_parties balances = foldl classify ([], []) (Object_entries balances)"

definition creditors_of :: "balances \<Rightarrow> Party list" where
  "creditors_of balances = fst (partition_parties balances)"

definition debtors_of :: "balances \<Rightarrow> Party list" where
  "debtors_of balances = snd (partition_parties balances)"


section \<open>The matching loop\<close>

record Settlement =
  from_name :: string
  to_name :: string
  settled :: rat

record loop_state =
  debtors :: "Party list"
  creditors :: "Party list"
  cursor_i :: nat
  cursor_j :: nat
  settlements :: "Settlement list"

text \<open>The body of the \<open>while\<close> loop, for cursors in range.\<close>

definition loop_body :: "loop_state \<Rightarrow> loop_state" where
  "loop_body s =
     (let debtor = debtors s ! cursor_i s;
          creditor = creditors s ! cursor_j s;
          amt = Math_min (party_amount debtor) (party_amount creditor);
          out = settlements s @
            [\<lparr>from_name = party_name debtor, to_name = party_name creditor,
              settled = round2 amt\<rparr>];
          debtor' = debtor\<lparr>party_amount := fsub (party_amount debtor) amt\<rparr>;
          creditor' = creditor\<lparr>party_amount := fsub (party_amount creditor) amt\<rparr>
      in \<lparr>debtors = (debtors s)[cursor_i s := debtor'],
          creditors = (creditors s)[cursor_j s := creditor'],
          cursor_i = (if party_amount debtor' = 0 then cursor_i s + 1 else cursor_i s),
          cursor_j = (if party_amount creditor' = 0 then cursor_j s + 1 else cursor_j s),
          settlements = out\<rparr>)"

definition in_range :: "loop_state \<Rightarrow> bool" where
  "in_range s = (cursor_i s < length (debtors s) \<and> cursor_j s < length (creditors s))"

definition remaining :: "loop_state \<Rightarrow> nat" where
  "remaining s = (length (debtors s) - cursor_i s) + (length (creditors s) - cursor_j s)"

text \<open>
  The loop ends: \<open>amount\<close> is one of the two remaining amounts, and \<open>x - x\<close> is
  \<open>0\<close>, so every pass moves a cursor.
\<close>

lemma fl_zero: "fl 0 = 0"
  by (simp add: fl_def)

lemma fsub_self: "fsub x x = 0"
  by (simp add: fsub_def fl_zero)

lemma loop_body_length:
  "length (debtors (loop_body s)) = length (debtors s)"
  "length (creditors (loop_body s)) = length (creditors s)"
  by (simp_all add: loop_body_def Let_def)

lemma loop_body_advances:
  assumes "in_range s"
  shows "cursor_i (loop_body s) + cursor_j (loop_body s) > cursor_i s + cursor_j s"
proof (cases "party_amount (debtors s ! cursor_i s) \<le> party_amount (creditors s ! cursor_j s)")
  case True
  then show ?thesis
    by (simp add: loop_body_def Let_def Math_min_def min_def fsub_self)
next
  case False
  then show ?thesis
    by (simp add: loop_body_def Let_def Math_min_def min_def fsub_self)
qed

lemma loop_body_cursors:
  "cursor_i s \<le> cursor_i (loop_body s)" "cursor_i (loop_body s) \<le> cursor_i s + 1"
  "cursor_j s \<le> cursor_j (loop_body s)" "cursor_j (loop_body s) \<le> cursor_j s + 1"
  by (simp_all add: loop_body_def Let_def)

lemma loop_body_remaining:
  assumes "in_range s"
  shows "remaining (loop_body s) < remaining s"
  using loop_body_advances [OF assms] loop_body_cursors [of s] assms
  by (simp add: remaining_def in_range_def loop_body_length) linarith

function settle_loop :: "loop_state \<Rightarrow> loop_state" where
  "settle_loop s = (if in_range s then settle_loop (loop_body s) else s)"
  by pat_completeness auto
termination
  by (relation "measure remaining") (simp_all add: loop_body_remaining)

declare settle_loop.simps [simp del]

text \<open>\<open>calculateSettlements\<close>, on the list that \<open>findAll\<close> returned.\<close>

record SettlementsResponse =
  resp_balances :: balances
  resp_settlements :: "Settlement list"

definition initial_state :: "balances \<Rightarrow> loop_state" where
  "initial_state balances =
     \<lparr>debtors = debtors_of balances, creditors = creditors_of balances,
      cursor_i = 0, cursor_j = 0, settlements = []\<rparr>"

definition calculateSettlements :: "Expense list \<Rightarrow> SettlementsResponse" where
  "calculateSettlements expenses =
     (let balances = accumulate expenses;
          final = settle_loop (initial_state balances)
      in \<lparr>resp_balances = balances, resp_settlements = settlements final\<rparr>)"

section \<open>Notions of the specification\<close>

text \<open>
  The rounded accumulated balance of a name: the \<open>rounded\<close> that the partition computes
  for its entry. A debtor is a name for which it is negative, a creditor one for which
  it is positive.
\<close>

definition rounded_balance :: "Expense list \<Rightarrow> string \<Rightarrow> rat option" where
  "rounded_balance expenses name =
     (case map_of (accumulate expenses) name of None \<Rightarrow> None | Some v \<Rightarrow> rounded v)"

definition owes :: "Expense list \<Rightarrow> string \<Rightarrow> bool" where
  "owes expenses name =
     (case rounded_balance expenses name of None \<Rightarrow> False | Some r \<Rightarrow> r < 0)"

definition is_owed :: "Expense list \<Rightarrow> string \<Rightarrow> bool" where
  "is_owed expenses name =
     (case rounded_balance expenses name of None \<Rightarrow> False | Some r \<Rightarrow> 0 < r)"

definition negative_entry :: "string \<times> jsvalue \<Rightarrow> bool" where
  "negative_entry kv = (case rounded (snd kv) of None \<Rightarrow> False | Some r \<Rightarrow> r < 0)"

definition positive_entry :: "string \<times> jsvalue \<Rightarrow> bool" where
  "positive_entry kv = (case rounded (snd kv) of None \<Rightarrow> False | Some r \<Rightarrow> 0 < r)"

text \<open>A value that its own rounding to two decimals leaves as it is.\<close>

definition two_decimal :: "jsvalue \<Rightarrow> bool" where
  "two_decimal v = (case v of Number b \<Rightarrow> round2 b = b | NonNumeric \<Rightarrow> False)"

text \<open>The running total after \<open>k\<close> debits of \<open>share\<close>, from \<open>start\<close>.\<close>

definition debited_from :: "rat \<Rightarrow> rat \<Rightarrow> nat \<Rightarrow> rat" where
  "debited_from start share k = ((\<lambda>x. fadd x (- share)) ^^ k) start"

text \<open>
  Conservation: the rounded balances of the names in \<open>balances\<close> add up to zero, within
  one cent for each name.
\<close>

definition rounded_total :: "balances \<Rightarrow> rat" where
  "rounded_total b =
     sum_list (map (\<lambda>kv. case rounded (snd kv) of None \<Rightarrow> 0 | Some r \<Rightarrow> r) b)"

definition conserved :: "Expense list \<Rightarrow> bool" where
  "conserved expenses =
     (\<bar>rounded_total (accumulate expenses)\<bar> \<le> of_nat (length (accumulate expenses)) / 100)"


text \<open>The running total of a name while the balances are being built.\<close>

definition current :: "balances \<Rightarrow> string \<Rightarrow> rat" where
  "current b n = (case map_of b n of Some (Number x) \<Rightarrow> x | _ \<Rightarrow> 0)"


section \<open>Inputs of the examples\<close>

text \<open>
  The dinner of the weighted example, payer \<open>A\<close>, amount 30.00: as the form posts it
  when \<open>A:1,B:2\<close> is typed, with \<open>A:1,B:2\<close> stored as it is, and with \<open>B\<close> listed twice.
\<close>

definition dinner_form :: Expense where
  "dinner_form =
     create \<lparr>dto_payerName = ''A'', dto_amount = 30, dto_description = ''dinner'',
       dto_participants = submitted_participants ''A:1,B:2''\<rparr>"

definition dinner_raw :: Expense where
  "dinner_raw =
     \<lparr>payerName = ''A'', amount = 30, description = ''dinner'', participants = ''A:1,B:2''\<rparr>"

definition dinner_repeated :: Expense where
  "dinner_repeated =
     \<lparr>payerName = ''A'', amount = 30, description = ''dinner'', participants = ''A,B,B''\<rparr>"

definition thirds :: "Expense list" where
  "thirds =
     [\<lparr>payerName = ''A'', amount = 100, description = ''hotel'', participants = ''A,B,C''\<rparr>]"

definition outing :: "Expense list" where
  "outing =
     [\<lparr>payerName = ''Ann'', amount = 10, description = ''lunch'', participants = ''Ann''\<rparr>,
      \<lparr>payerName = ''Bob'', amount = 20, description = ''taxi'', participants = ''Cy''\<rparr>]"

definition small_change :: "Expense list" where
  "small_change =
     [\<lparr>payerName = ''Ann'', amount = 1 / 10, description = ''stamp'', participants = ''Dan''\<rparr>,
      \<lparr>payerName = ''Bob'', amount = 2 / 10, description = ''copy'', participants = ''Dan''\<rparr>,
      \<lparr>payerName = ''Cy'', amount = 5 / 10, description = ''locker'', participants = ''Eve''\<rparr>]"

definition lost_debit :: "Expense list" where
  "lost_debit =
     [\<lparr>payerName = ''A'', amount = 90, description = ''dinner'', participants = ''__proto__''\<rparr>]"

definition trip_dto :: CreateExpenseDto where
  "trip_dto =
     \<lparr>dto_payerName = ''Ann'', dto_amount = 45, dto_description = ''fuel'',
      dto_participants = [''Ann'', ''Bob Lee'', ''Cy'']\<rparr>"


section \<open>The rounding\<close>

text \<open>
  \<open>fl\<close> is the rounding to the nearest value with a significand of 53 bits: the
  exponent is the right one, the result has such a significand, it is within half a
  unit in the last place of its argument, and a value with such a significand is left
  as it is. So \<open>Number\<close> of a value that is a binary64 value already is that value.
\<close>

lemma bits_nonneg: "0 \<le> bits n"
proof (induction n rule: bits.induct)
  case (1 n)
  then show ?case
    by (cases "n \<le> 0") (simp_all add: bits.simps [of n])
qed

lemma bits_pos: "0 < n \<Longrightarrow> 0 < bits n"
  using bits_nonneg [of "n div 2"] by (simp add: bits.simps [of n])

lemma bits_bounds:
  "0 < n \<Longrightarrow> 2 ^ nat (bits n - 1) \<le> n \<and> n < 2 ^ nat (bits n)"
proof (induction n rule: bits.induct)
  case (1 n)
  show ?case
  proof (cases "n = 1")
    case True
    then show ?thesis by (simp add: bits.simps [of 1] bits.simps [of 0])
  next
    case False
    with "1.prems" have h: "0 < n div 2" by simp
    with "1.prems" "1.IH" have ih: "2 ^ nat (bits (n div 2) - 1) \<le> n div 2"
        "n div 2 < 2 ^ nat (bits (n div 2))"
      by simp_all
    have b: "bits n = bits (n div 2) + 1"
      using "1.prems" by (simp add: bits.simps [of n])
    from bits_pos [OF h] have "nat (bits (n div 2)) = Suc (nat (bits (n div 2) - 1))"
      by simp
    with ih have "2 ^ nat (bits (n div 2)) \<le> 2 * (n div 2)"
      by simp
    moreover have "2 * (n div 2) \<le> n" by simp
    moreover have "n < 2 * (n div 2 + 1)" by simp
    moreover from bits_pos [OF h] have "nat (bits (n div 2) + 1) = Suc (nat (bits (n div 2)))"
      by simp
    ultimately show ?thesis
      using ih b by simp
  qed
qed

lemma pow2_pos: "0 < pow2 e"
  by (simp add: pow2_def)

lemma pow2_powi: "pow2 e = 2 powi e"
  by (simp add: pow2_def power_int_def field_simps)

lemma bits_bounds_rat:
  assumes "0 < n"
  shows "pow2 (bits n - 1) \<le> of_int n" "of_int n < pow2 (bits n)"
proof -
  from bits_pos [OF assms] have p: "0 \<le> bits n - 1" "0 \<le> bits n" by simp_all
  from bits_bounds [OF assms] have "2 ^ nat (bits n - 1) \<le> n" "n < 2 ^ nat (bits n)"
    by simp_all
  then have "(of_int (2 ^ nat (bits n - 1)) :: rat) \<le> of_int n"
      "(of_int n :: rat) < of_int (2 ^ nat (bits n))"
    by (simp_all only: of_int_le_iff of_int_less_iff)
  with p show "pow2 (bits n - 1) \<le> of_int n" "of_int n < pow2 (bits n)"
    by (simp_all add: pow2_def)
qed

lemma pow2_add: "pow2 (a + b) = pow2 a * pow2 b"
  by (simp add: pow2_powi power_int_add)

lemma pow2_diff: "pow2 (a - b) = pow2 a / pow2 b"
  by (simp add: pow2_powi power_int_diff)

lemma pow2_mono: "a \<le> b \<Longrightarrow> pow2 a \<le> pow2 b"
  by (simp add: pow2_powi power_int_increasing)

lemma exponent_correct:
  assumes "0 < a"
  shows "pow2 (exponent a) \<le> a" "a < pow2 (exponent a + 1)"
proof -
  obtain p q where pq: "quotient_of a = (p, q)" by (cases "quotient_of a")
  then have q: "0 < q" and a: "a = of_int p / of_int q"
    by (simp_all add: quotient_of_denom_pos quotient_of_div)
  with assms have p: "0 < p"
    by (simp add: zero_less_divide_iff)
  define k where "k = bits p - bits q"
  have e: "exponent a = (if pow2 k \<le> a then k else k - 1)"
    by (simp add: exponent_def pq k_def)
  from q have q': "(0::rat) < of_int q" by simp
  have "a < pow2 (bits p) / pow2 (bits q - 1)"
  proof -
    have "a < pow2 (bits p) / of_int q"
      unfolding a using bits_bounds_rat(2) [OF p] q' by (simp add: divide_strict_right_mono)
    also have "\<dots> \<le> pow2 (bits p) / pow2 (bits q - 1)"
      using bits_bounds_rat(1) [OF q] pow2_pos [of "bits p"] pow2_pos [of "bits q - 1"]
      by (simp add: frac_le)
    finally show ?thesis .
  qed
  then have up: "a < pow2 (k + 1)"
    by (simp add: pow2_diff [symmetric] k_def algebra_simps)
  have "pow2 (bits p - 1) / pow2 (bits q) \<le> a"
  proof -
    have "pow2 (bits p - 1) / pow2 (bits q) \<le> pow2 (bits p - 1) / of_int q"
      using bits_bounds_rat(2) [OF q] pow2_pos [of "bits p - 1"] q'
      by (simp add: frac_le)
    also have "\<dots> \<le> a"
      unfolding a using bits_bounds_rat(1) [OF p] q' by (simp add: divide_right_mono)
    finally show ?thesis .
  qed
  then have low: "pow2 (k - 1) \<le> a"
    by (simp add: pow2_diff [symmetric] k_def algebra_simps)
  show "pow2 (exponent a) \<le> a"
    using low by (simp add: e)
  show "a < pow2 (exponent a + 1)"
    using up by (auto simp: e not_le)
qed

lemma roundTiesToEven_error: "\<bar>of_int (roundTiesToEven q) - q\<bar> \<le> 1 / 2"
proof -
  have "of_int \<lfloor>q\<rfloor> \<le> q" "q < of_int \<lfloor>q\<rfloor> + 1" by linarith+
  then show ?thesis
    by (auto simp: roundTiesToEven_def Let_def abs_le_iff)
qed

lemma roundTiesToEven_int: "roundTiesToEven (of_int m) = m"
  by (simp add: roundTiesToEven_def)

lemma roundTiesToEven_mono_bounds:
  assumes "of_int lo \<le> q" "q < of_int hi"
  shows "lo \<le> roundTiesToEven q" "roundTiesToEven q \<le> hi"
proof -
  from assms have "lo \<le> \<lfloor>q\<rfloor>" "\<lfloor>q\<rfloor> < hi"
    by (simp_all add: le_floor_iff floor_less_iff)
  then show "lo \<le> roundTiesToEven q" "roundTiesToEven q \<le> hi"
    by (auto simp: roundTiesToEven_def Let_def)
qed

lemma exponent_unique:
  assumes "pow2 k \<le> a" "a < pow2 (k + 1)"
  shows "exponent a = k"
proof -
  from assms pow2_pos [of k] have a: "0 < a" by linarith
  note c = exponent_correct [OF a]
  have "\<not> exponent a < k"
  proof
    assume "exponent a < k"
    then have "pow2 (exponent a + 1) \<le> pow2 k" by (simp add: pow2_mono)
    with c(2) assms(1) show False by linarith
  qed
  moreover have "\<not> k < exponent a"
  proof
    assume "k < exponent a"
    then have "pow2 (k + 1) \<le> pow2 (exponent a)" by (simp add: pow2_mono)
    with c(1) assms(2) show False by linarith
  qed
  ultimately show ?thesis by linarith
qed

lemma scaled_range:
  assumes "x \<noteq> 0"
  shows "2 ^ 52 \<le> \<bar>x\<bar> / pow2 (exponent \<bar>x\<bar> - 52)"
    "\<bar>x\<bar> / pow2 (exponent \<bar>x\<bar> - 52) < 2 ^ 53"
proof -
  from assms have a: "0 < \<bar>x\<bar>" by simp
  note c = exponent_correct [OF a]
  have "pow2 (exponent \<bar>x\<bar>) = pow2 (exponent \<bar>x\<bar> - 52) * pow2 52"
    using pow2_add [of "exponent \<bar>x\<bar> - 52" 52] by simp
  moreover have "pow2 (exponent \<bar>x\<bar> + 1) = pow2 (exponent \<bar>x\<bar> - 52) * pow2 53"
    using pow2_add [of "exponent \<bar>x\<bar> - 52" 53] by (simp add: add.commute)
  moreover have "pow2 52 = 2 ^ 52" "pow2 53 = 2 ^ 53"
    by (simp_all add: pow2_def)
  ultimately show "2 ^ 52 \<le> \<bar>x\<bar> / pow2 (exponent \<bar>x\<bar> - 52)"
    "\<bar>x\<bar> / pow2 (exponent \<bar>x\<bar> - 52) < 2 ^ 53"
    using c pow2_pos [of "exponent \<bar>x\<bar> - 52"]
    by (simp_all add: pos_le_divide_eq pos_divide_less_eq mult.commute)
qed

lemma fl_nonzero:
  "x \<noteq> 0 \<Longrightarrow>
     fl x = sgn x * of_int (roundTiesToEven (\<bar>x\<bar> / pow2 (exponent \<bar>x\<bar> - 52)))
       * pow2 (exponent \<bar>x\<bar> - 52)"
  by (simp add: fl_def Let_def)

lemma fl_significand:
  assumes "x \<noteq> 0"
  shows "2 ^ 52 \<le> roundTiesToEven (\<bar>x\<bar> / pow2 (exponent \<bar>x\<bar> - 52))"
    "roundTiesToEven (\<bar>x\<bar> / pow2 (exponent \<bar>x\<bar> - 52)) \<le> 2 ^ 53"
  using roundTiesToEven_mono_bounds [of "2 ^ 52" "\<bar>x\<bar> / pow2 (exponent \<bar>x\<bar> - 52)" "2 ^ 53"]
    scaled_range [OF assms]
  by simp_all

lemma fl_error: "\<bar>fl x - x\<bar> \<le> pow2 (exponent \<bar>x\<bar> - 52) / 2"
proof (cases "x = 0")
  case True
  then show ?thesis using pow2_pos [of "exponent \<bar>x\<bar> - 52"] by (simp add: fl_zero)
next
  case False
  define u where "u = pow2 (exponent \<bar>x\<bar> - 52)"
  define q where "q = \<bar>x\<bar> / u"
  have u: "0 < u" by (simp add: u_def pow2_pos)
  then have x: "x = sgn x * q * u"
    by (simp add: q_def mult_sgn_abs)
  have "fl x - x = sgn x * (of_int (roundTiesToEven q) - q) * u"
    using x fl_nonzero [OF False] by (simp add: u_def q_def algebra_simps)
  then have "\<bar>fl x - x\<bar> = \<bar>of_int (roundTiesToEven q) - q\<bar> * u"
    using u False by (simp add: abs_mult abs_sgn_eq)
  also have "\<dots> \<le> 1 / 2 * u"
    using roundTiesToEven_error [of q] u by (intro mult_right_mono) simp_all
  finally show ?thesis by (simp add: u_def)
qed

lemma fl_minus: "fl (- x) = - fl x"
  by (simp add: fl_def Let_def sgn_minus)

lemma fl_of_scaled_int:
  assumes x: "x \<noteq> 0" and j: "\<bar>x\<bar> / pow2 (exponent \<bar>x\<bar> - 52) = of_int j"
  shows "fl x = x"
proof -
  have u: "0 < pow2 (exponent \<bar>x\<bar> - 52)" by (rule pow2_pos)
  from j u have a: "of_int j * pow2 (exponent \<bar>x\<bar> - 52) = \<bar>x\<bar>"
    by (simp add: field_simps)
  have "sgn x * of_int j * pow2 (exponent \<bar>x\<bar> - 52)
      = sgn x * (of_int j * pow2 (exponent \<bar>x\<bar> - 52))"
    by (simp only: mult.assoc)
  also have "\<dots> = sgn x * \<bar>x\<bar>" by (simp only: a)
  also have "\<dots> = x" by (rule mult_sgn_abs)
  finally show ?thesis
    using fl_nonzero [OF x] by (simp add: j roundTiesToEven_int)
qed

lemma fl_representable:
  assumes m: "\<bar>m\<bar> \<le> 2 ^ 53"
  shows "fl (of_int m * pow2 g) = of_int m * pow2 g"
proof (cases "m = 0")
  case True
  then show ?thesis by (simp add: fl_zero)
next
  case False
  define x :: rat where "x = of_int m * pow2 g"
  define e where "e = exponent \<bar>x\<bar> - 52"
  from False pow2_pos [of g] have x: "x \<noteq> 0" by (simp add: x_def)
  have ax: "\<bar>x\<bar> = of_int \<bar>m\<bar> * pow2 g"
    using pow2_pos [of g] by (simp add: x_def abs_mult)
  have q: "\<bar>x\<bar> / pow2 e = of_int \<bar>m\<bar> * pow2 (g - e)"
    by (simp add: ax pow2_diff)
  from scaled_range [OF x] have r: "2 ^ 52 \<le> \<bar>x\<bar> / pow2 e" by (simp add: e_def)
  have "\<exists>j. \<bar>x\<bar> / pow2 e = of_int j"
  proof (cases "e \<le> g")
    case True
    then have "pow2 (g - e) = of_int (2 ^ nat (g - e))" by (simp add: pow2_def)
    then have "\<bar>x\<bar> / pow2 e = of_int (\<bar>m\<bar> * 2 ^ nat (g - e))" by (simp add: q)
    then show ?thesis ..
  next
    case False
    define d where "d = nat (e - g)"
    from False have d: "0 < d" and p: "pow2 (g - e) = 1 / of_int (2 ^ d)"
      by (simp_all add: pow2_def d_def)
    from r have "(2::rat) ^ 52 * of_int (2 ^ d) \<le> of_int \<bar>m\<bar>"
      by (simp add: q p pos_le_divide_eq)
    then have "(of_int (2 ^ 52 * 2 ^ d) :: rat) \<le> of_int \<bar>m\<bar>" by simp
    then have le: "2 ^ 52 * 2 ^ d \<le> \<bar>m\<bar>" by (simp only: of_int_le_iff)
    with m have "(2::int) ^ 52 * 2 ^ d \<le> 2 ^ 52 * 2" by simp
    then have "(2::int) ^ d \<le> 2 ^ 1" by simp
    then have "d \<le> 1" by (simp only: power_increasing_iff [of 2]) 
    with d have d1: "d = 1" by simp
    with le m have "\<bar>m\<bar> = 2 ^ 53" by simp
    then have "\<bar>x\<bar> / pow2 e = of_int (2 ^ 52)" by (simp add: q p d1)
    then show ?thesis ..
  qed
  then obtain j where "\<bar>x\<bar> / pow2 (exponent \<bar>x\<bar> - 52) = of_int j"
    by (auto simp: e_def)
  from fl_of_scaled_int [OF x this] show ?thesis by (simp add: x_def)
qed

lemma fl_of_int: "\<bar>k\<bar> \<le> 2 ^ 53 \<Longrightarrow> fl (of_int k) = of_int k"
  using fl_representable [of k 0] by (simp add: pow2_def)

lemma fl_idem: "fl (fl x) = fl x"
proof (cases "x = 0")
  case True
  then show ?thesis by (simp add: fl_zero)
next
  case False
  define M where "M = roundTiesToEven (\<bar>x\<bar> / pow2 (exponent \<bar>x\<bar> - 52))"
  from fl_significand [OF False] have M: "2 ^ 52 \<le> M" "M \<le> 2 ^ 53"
    by (simp_all add: M_def)
  have "fl x = of_int (if 0 < x then M else - M) * pow2 (exponent \<bar>x\<bar> - 52)"
    using False fl_nonzero [OF False] by (simp add: M_def sgn_if)
  moreover from M have "\<bar>if 0 < x then M else - M\<bar> \<le> 2 ^ 53" by simp
  ultimately show ?thesis
    using fl_representable [of "if 0 < x then M else - M" "exponent \<bar>x\<bar> - 52"] by simp
qed

text \<open>Values of the rounding.\<close>

lemma fl_tenth: "fl (1 / 10) = 3602879701896397 / 36028797018963968"
  by code_simp

lemma fl_tie_to_even: "fl (2 ^ 53 + 1) = 2 ^ 53" "fl (2 ^ 53 + 3) = 2 ^ 53 + 4"
  by code_simp+

lemma fsub_residue: "fsub (fl (2 / 10)) (fsub (fl (3 / 10)) (fl (1 / 10))) = 1 / 2 ^ 55"
  by code_simp

lemma round2_residue: "round2 (1 / 2 ^ 55) = 0"
  by code_simp


section \<open>The matching loop: names and count\<close>

lemma map_update_same: "(map f xs)[i := f (xs ! i)] = map f xs"
  by (metis list_update_id map_update)

lemma loop_body_names:
  "map party_name (debtors (loop_body s)) = map party_name (debtors s)"
  "map party_name (creditors (loop_body s)) = map party_name (creditors s)"
  by (simp_all add: loop_body_def Let_def map_update map_update_same)

lemma loop_body_settlements:
  assumes "in_range s"
  shows "\<exists>t. settlements (loop_body s) = settlements s @ [t]
     \<and> from_name t \<in> set (map party_name (debtors s))
     \<and> to_name t \<in> set (map party_name (creditors s))"
  using assms by (simp add: loop_body_def Let_def in_range_def)

lemma settle_loop_out_of_range: "\<not> in_range s \<Longrightarrow> settle_loop s = s"
  by (subst settle_loop.simps) simp

lemma settle_loop_in_range: "in_range s \<Longrightarrow> settle_loop s = settle_loop (loop_body s)"
  by (subst settle_loop.simps) simp

lemma settle_loop_names:
  "t \<in> set (settlements (settle_loop s)) \<Longrightarrow>
     t \<in> set (settlements s) \<or>
     (from_name t \<in> set (map party_name (debtors s))
      \<and> to_name t \<in> set (map party_name (creditors s)))"
proof (induction s rule: settle_loop.induct)
  case (1 s)
  show ?case
  proof (cases "in_range s")
    case True
    from loop_body_settlements [OF True] obtain u where
      u: "settlements (loop_body s) = settlements s @ [u]"
         "from_name u \<in> set (map party_name (debtors s))"
         "to_name u \<in> set (map party_name (creditors s))"
      by blast
    from "1.prems" True have "t \<in> set (settlements (settle_loop (loop_body s)))"
      by (simp add: settle_loop_in_range)
    from "1.IH" [OF True this] show ?thesis
      using u by (auto simp: loop_body_names)
  next
    case False
    with "1.prems" show ?thesis
      by (simp add: settle_loop_out_of_range)
  qed
qed

lemma settle_loop_count:
  "in_range s \<Longrightarrow>
     length (settlements (settle_loop s)) + 1 \<le> length (settlements s) + remaining s"
proof (induction s rule: settle_loop.induct)
  case (1 s)
  note eq = settle_loop_in_range [OF "1.prems"]
  from loop_body_settlements [OF "1.prems"]
  have len: "length (settlements (loop_body s)) = length (settlements s) + 1"
    by auto
  have dec: "remaining (loop_body s) < remaining s"
    by (rule loop_body_remaining [OF "1.prems"])
  show ?case
  proof (cases "in_range (loop_body s)")
    case True
    from "1.IH" [OF "1.prems" True] len dec eq show ?thesis by simp
  next
    case False
    then have "settle_loop (loop_body s) = loop_body s"
      by (rule settle_loop_out_of_range)
    moreover from "1.prems" have "2 \<le> remaining s"
      unfolding in_range_def remaining_def by linarith
    ultimately show ?thesis using len eq by simp
  qed
qed


section \<open>The balances object: distinct keys\<close>

lemma addBalance_distinct:
  "distinct (map fst balances) \<Longrightarrow> distinct (map fst (addBalance balances name amt))"
  by (simp add: addBalance_def distinct_update split: option.splits jsvalue.splits)

lemma foldl_addBalance_distinct:
  "distinct (map fst balances) \<Longrightarrow>
   distinct (map fst (foldl (\<lambda>b p. addBalance b p amt) balances ps))"
  by (induction ps arbitrary: balances) (simp_all add: addBalance_distinct)

lemma process_expense_distinct:
  "distinct (map fst balances) \<Longrightarrow> distinct (map fst (process_expense balances e))"
  by (simp add: process_expense_def Let_def addBalance_distinct foldl_addBalance_distinct)

lemma foldl_process_expense_distinct:
  "distinct (map fst balances) \<Longrightarrow> distinct (map fst (foldl process_expense balances es))"
  by (induction es arbitrary: balances) (simp_all add: process_expense_distinct)

lemma accumulate_distinct: "distinct (map fst (accumulate es))"
  by (simp add: accumulate_def foldl_process_expense_distinct)

lemma entry_lookup:
  assumes "distinct (map fst b)"
  shows "(n, v) \<in> set b \<longleftrightarrow> map_of b n = Some v"
  using assms by (auto dest: map_of_SomeD)


section \<open>The partition\<close>

lemma set_Object_entries: "set (Object_entries b) = set b"
  by (auto simp: Object_entries_def)

lemma distinct_Object_entries:
  assumes "distinct (map fst b)"
  shows "distinct (map fst (Object_entries b))"
proof -
  from assms have d: "distinct b" and inj: "inj_on fst (set b)"
    by (simp_all add: distinct_map)
  have "distinct (Object_entries b)"
    using d by (auto simp: Object_entries_def)
  with inj show ?thesis
    by (simp add: distinct_map set_Object_entries)
qed

lemma classify_names:
  "map party_name (fst (classify cd kv)) =
     map party_name (fst cd) @ (if positive_entry kv then [fst kv] else [])"
  "map party_name (snd (classify cd kv)) =
     map party_name (snd cd) @ (if negative_entry kv then [fst kv] else [])"
  by (auto simp: classify_def positive_entry_def negative_entry_def split: option.splits)

lemma foldl_classify_names:
  "map party_name (fst (foldl classify cd kvs)) =
     map party_name (fst cd) @ map fst (filter positive_entry kvs)"
  "map party_name (snd (foldl classify cd kvs)) =
     map party_name (snd cd) @ map fst (filter negative_entry kvs)"
  by (induction kvs arbitrary: cd) (simp_all add: classify_names)

lemma creditor_names:
  "map party_name (creditors_of b) = map fst (filter positive_entry (Object_entries b))"
  by (simp add: creditors_of_def partition_parties_def foldl_classify_names)

lemma debtor_names:
  "map party_name (debtors_of b) = map fst (filter negative_entry (Object_entries b))"
  by (simp add: debtors_of_def partition_parties_def foldl_classify_names)

lemma negative_names:
  assumes "distinct (map fst b)"
  shows "n \<in> set (map fst (filter negative_entry (Object_entries b))) \<longleftrightarrow>
    (\<exists>v. map_of b n = Some v \<and> negative_entry (n, v))"
proof -
  have "n \<in> set (map fst (filter negative_entry (Object_entries b))) \<longleftrightarrow>
      (\<exists>v. (n, v) \<in> set b \<and> negative_entry (n, v))"
    by (force simp: set_Object_entries)
  then show ?thesis by (simp add: entry_lookup [OF assms])
qed

lemma positive_names:
  assumes "distinct (map fst b)"
  shows "n \<in> set (map fst (filter positive_entry (Object_entries b))) \<longleftrightarrow>
    (\<exists>v. map_of b n = Some v \<and> positive_entry (n, v))"
proof -
  have "n \<in> set (map fst (filter positive_entry (Object_entries b))) \<longleftrightarrow>
      (\<exists>v. (n, v) \<in> set b \<and> positive_entry (n, v))"
    by (force simp: set_Object_entries)
  then show ?thesis by (simp add: entry_lookup [OF assms])
qed

lemma debtor_names_set:
  "set (map party_name (debtors_of (accumulate es))) = {n. owes es n}"
proof (rule set_eqI)
  fix n
  have "n \<in> set (map party_name (debtors_of (accumulate es))) \<longleftrightarrow>
      (\<exists>v. map_of (accumulate es) n = Some v \<and> negative_entry (n, v))"
    unfolding debtor_names by (rule negative_names [OF accumulate_distinct])
  also have "\<dots> \<longleftrightarrow> owes es n"
    by (cases "map_of (accumulate es) n")
      (simp_all add: owes_def rounded_balance_def negative_entry_def)
  finally show "n \<in> set (map party_name (debtors_of (accumulate es))) \<longleftrightarrow>
      n \<in> {n. owes es n}"
    by simp
qed

lemma creditor_names_set:
  "set (map party_name (creditors_of (accumulate es))) = {n. is_owed es n}"
proof (rule set_eqI)
  fix n
  have "n \<in> set (map party_name (creditors_of (accumulate es))) \<longleftrightarrow>
      (\<exists>v. map_of (accumulate es) n = Some v \<and> positive_entry (n, v))"
    unfolding creditor_names by (rule positive_names [OF accumulate_distinct])
  also have "\<dots> \<longleftrightarrow> is_owed es n"
    by (cases "map_of (accumulate es) n")
      (simp_all add: is_owed_def rounded_balance_def positive_entry_def)
  finally show "n \<in> set (map party_name (creditors_of (accumulate es))) \<longleftrightarrow>
      n \<in> {n. is_owed es n}"
    by simp
qed

lemma debtor_names_distinct: "distinct (map party_name (debtors_of (accumulate es)))"
  by (simp add: debtor_names distinct_map_filter distinct_Object_entries accumulate_distinct)

lemma creditor_names_distinct: "distinct (map party_name (creditors_of (accumulate es)))"
  by (simp add: creditor_names distinct_map_filter distinct_Object_entries accumulate_distinct)

lemma debtors_count: "length (debtors_of (accumulate es)) = card {n. owes es n}"
  using distinct_card [OF debtor_names_distinct [of es]] debtor_names_set [of es] by simp

lemma creditors_count: "length (creditors_of (accumulate es)) = card {n. is_owed es n}"
  using distinct_card [OF creditor_names_distinct [of es]] creditor_names_set [of es] by simp

text \<open>The amount that a party starts with is the rounding of its running total.\<close>

lemma classify_amounts:
  "p \<in> set (fst (classify cd kv)) \<Longrightarrow>
     p \<in> set (fst cd) \<or>
     (\<exists>r. rounded (snd kv) = Some r \<and> 0 < r \<and> p = \<lparr>party_name = fst kv, party_amount = r\<rparr>)"
  "p \<in> set (snd (classify cd kv)) \<Longrightarrow>
     p \<in> set (snd cd) \<or>
     (\<exists>r. rounded (snd kv) = Some r \<and> r < 0 \<and> p = \<lparr>party_name = fst kv, party_amount = - r\<rparr>)"
  by (auto simp: classify_def split: option.splits if_splits)

lemma foldl_classify_amounts:
  "p \<in> set (fst (foldl classify cd kvs)) \<Longrightarrow>
     p \<in> set (fst cd) \<or>
     (\<exists>kv r. kv \<in> set kvs \<and> rounded (snd kv) = Some r \<and> 0 < r
        \<and> p = \<lparr>party_name = fst kv, party_amount = r\<rparr>)"
  "p \<in> set (snd (foldl classify cd kvs)) \<Longrightarrow>
     p \<in> set (snd cd) \<or>
     (\<exists>kv r. kv \<in> set kvs \<and> rounded (snd kv) = Some r \<and> r < 0
        \<and> p = \<lparr>party_name = fst kv, party_amount = - r\<rparr>)"
proof (induction kvs arbitrary: cd)
  case Nil
  { case 1 then show ?case by simp }
  { case 2 then show ?case by simp }
next
  case (Cons kv kvs)
  { case 1
    from Cons.IH(1) [of "classify cd kv"] 1
    show ?case using classify_amounts(1) [of p cd kv] by fastforce }
  { case 2
    from Cons.IH(2) [of "classify cd kv"] 2
    show ?case using classify_amounts(2) [of p cd kv] by fastforce }
qed

lemma rounded_Some: "rounded v = Some r \<Longrightarrow> \<exists>b. v = Number b \<and> r = round2 b"
  by (cases v) (simp_all add: rounded_def)

lemma creditor_amount:
  assumes "distinct (map fst b)" "p \<in> set (creditors_of b)"
  shows "\<exists>x. map_of b (party_name p) = Some (Number x)
    \<and> party_amount p = round2 x \<and> 0 < round2 x"
proof -
  from foldl_classify_amounts(1) [of p "([], [])" "Object_entries b"] assms(2)
  obtain kv r where kv: "kv \<in> set b" "rounded (snd kv) = Some r" "0 < r"
      "p = \<lparr>party_name = fst kv, party_amount = r\<rparr>"
    by (auto simp: creditors_of_def partition_parties_def set_Object_entries)
  from rounded_Some [OF kv(2)] obtain x where x: "snd kv = Number x" "r = round2 x"
    by blast
  from kv(1) x(1) have "(fst kv, Number x) \<in> set b"
    by (metis prod.collapse)
  then have "map_of b (fst kv) = Some (Number x)"
    using entry_lookup [OF assms(1)] by blast
  with kv x show ?thesis by simp
qed

lemma debtor_amount:
  assumes "distinct (map fst b)" "p \<in> set (debtors_of b)"
  shows "\<exists>x. map_of b (party_name p) = Some (Number x)
    \<and> party_amount p = - round2 x \<and> round2 x < 0"
proof -
  from foldl_classify_amounts(2) [of p "([], [])" "Object_entries b"] assms(2)
  obtain kv r where kv: "kv \<in> set b" "rounded (snd kv) = Some r" "r < 0"
      "p = \<lparr>party_name = fst kv, party_amount = - r\<rparr>"
    by (auto simp: debtors_of_def partition_parties_def set_Object_entries)
  from rounded_Some [OF kv(2)] obtain x where x: "snd kv = Number x" "r = round2 x"
    by blast
  from kv(1) x(1) have "(fst kv, Number x) \<in> set b"
    by (metis prod.collapse)
  then have "map_of b (fst kv) = Some (Number x)"
    using entry_lookup [OF assms(1)] by blast
  with kv x show ?thesis by simp
qed

text \<open>The names in the transfers of \<open>calculateSettlements\<close>.\<close>

lemma resp_balances_eq: "resp_balances (calculateSettlements es) = accumulate es"
  by (simp add: calculateSettlements_def Let_def)

lemma resp_settlements_eq:
  "resp_settlements (calculateSettlements es) =
     settlements (settle_loop (initial_state (accumulate es)))"
  by (simp add: calculateSettlements_def Let_def)

lemma transfer_names:
  assumes "t \<in> set (resp_settlements (calculateSettlements es))"
  shows "from_name t \<in> set (map party_name (debtors_of (accumulate es)))"
    and "to_name t \<in> set (map party_name (creditors_of (accumulate es)))"
  using settle_loop_names [of t "initial_state (accumulate es)"] assms
  by (simp_all add: resp_settlements_eq initial_state_def)

section \<open>Lemmas on strings\<close>

lemma split_on_no_sep: "sep \<notin> set p \<Longrightarrow> split_on sep p = [p]"
  by (induction p) auto

lemma split_on_append:
  "sep \<notin> set p \<Longrightarrow> split_on sep (p @ sep # rest) = p # split_on sep rest"
  by (induction p) auto

lemma split_on_join:
  "\<forall>p \<in> set ps. sep \<notin> set p \<Longrightarrow> ps \<noteq> [] \<Longrightarrow> split_on sep (join sep ps) = ps"
  by (induction sep ps rule: join.induct) (simp_all add: split_on_no_sep split_on_append)

lemma trim_id:
  assumes "p \<noteq> []" "\<not> is_white_space (hd p)" "\<not> is_white_space (last p)"
  shows "trim p = p"
proof -
  from assms have "dropWhile is_white_space p = p"
    by (simp add: dropWhile_eq_self_iff)
  moreover from assms have "dropWhile is_white_space (rev p) = rev p"
    by (simp add: dropWhile_eq_self_iff hd_rev)
  ultimately show ?thesis by (simp add: trim_def)
qed


section \<open>One expense\<close>

lemma addBalance_other:
  "n \<noteq> name \<Longrightarrow> map_of (addBalance b name amt) n = map_of b n"
proof (cases "map_of b name")
  case None
  then show ?thesis if "n \<noteq> name"
    using that by (simp add: addBalance_def update_conv')
next
  case (Some v)
  then show ?thesis if "n \<noteq> name"
    using that by (cases v) (simp_all add: addBalance_def update_conv')
qed

lemma addBalance_same:
  assumes "name \<notin> set Object_prototype_keys" "map_of b name \<noteq> Some NonNumeric"
  shows "map_of (addBalance b name amt) name = Some (Number (fadd (current b name) amt))"
proof -
  from assms(1) have "name \<noteq> ''__proto__''"
    by (auto simp: Object_prototype_keys_def)
  with assms show ?thesis
    by (cases "map_of b name")
      (auto simp: addBalance_def current_def update_conv' split: jsvalue.splits)
qed

lemma debit_swap:
  "((\<lambda>x. fadd x a) ^^ k) (fadd c a) = fadd (((\<lambda>x. fadd x a) ^^ k) c) a"
  using funpow_swap1 [of "\<lambda>x. fadd x a" k c] by simp

lemma foldl_addBalance_lookup:
  assumes "n \<notin> set Object_prototype_keys"
  shows "map_of b n \<noteq> Some NonNumeric \<Longrightarrow>
    map_of (foldl (\<lambda>b p. addBalance b p a) b ps) n =
      (if n \<in> set ps
       then Some (Number (((\<lambda>x. fadd x a) ^^ count_list ps n) (current b n)))
       else map_of b n)"
proof (induction ps arbitrary: b)
  case Nil
  then show ?case by simp
next
  case (Cons p ps)
  show ?case
  proof (cases "p = n")
    case True
    from addBalance_same [OF assms Cons.prems, of a]
    have step: "map_of (addBalance b n a) n = Some (Number (fadd (current b n) a))" .
    then have cur: "current (addBalance b n a) n = fadd (current b n) a"
      by (simp add: current_def)
    from step have ok: "map_of (addBalance b n a) n \<noteq> Some NonNumeric" by simp
    from Cons.IH [OF ok] True step cur show ?thesis
      by (simp add: debit_swap)
  next
    case False
    then have same: "map_of (addBalance b p a) n = map_of b n"
      by (simp add: addBalance_other)
    then have cur: "current (addBalance b p a) n = current b n"
      by (simp add: current_def)
    from same Cons.prems have ok: "map_of (addBalance b p a) n \<noteq> Some NonNumeric" by simp
    from Cons.IH [OF ok] False same cur show ?thesis
      by simp
  qed
qed

lemma addBalance_numeric:
  assumes "n \<notin> set Object_prototype_keys" "map_of b n \<noteq> Some NonNumeric"
  shows "map_of (addBalance b name amt) n \<noteq> Some NonNumeric"
proof (cases "n = name")
  case True
  with addBalance_same [OF assms, of amt] show ?thesis by simp
next
  case False
  with assms(2) show ?thesis by (simp add: addBalance_other)
qed

lemma foldl_addBalance_numeric:
  assumes "n \<notin> set Object_prototype_keys"
  shows "map_of b n \<noteq> Some NonNumeric \<Longrightarrow>
    map_of (foldl (\<lambda>b p. addBalance b p amt) b ps) n \<noteq> Some NonNumeric"
  by (induction ps arbitrary: b) (simp_all add: addBalance_numeric [OF assms])

lemma process_expense_numeric:
  assumes "n \<notin> set Object_prototype_keys" "map_of b n \<noteq> Some NonNumeric"
  shows "map_of (process_expense b e) n \<noteq> Some NonNumeric"
  using assms
  by (simp add: process_expense_def Let_def addBalance_numeric foldl_addBalance_numeric)

lemma foldl_process_expense_numeric:
  assumes "n \<notin> set Object_prototype_keys"
  shows "map_of b n \<noteq> Some NonNumeric \<Longrightarrow>
    map_of (foldl process_expense b es) n \<noteq> Some NonNumeric"
  by (induction es arbitrary: b) (simp_all add: process_expense_numeric [OF assms])

lemma accumulate_numeric:
  "n \<notin> set Object_prototype_keys \<Longrightarrow> map_of (accumulate es) n \<noteq> Some NonNumeric"
  by (simp add: accumulate_def foldl_process_expense_numeric)

lemma accumulate_snoc: "accumulate (es @ [e]) = process_expense (accumulate es) e"
  by (simp add: accumulate_def)

lemma process_expense_balance:
  assumes ps: "parse_participants (participants e) \<noteq> []"
    and n: "n \<notin> set Object_prototype_keys"
    and b: "map_of b n \<noteq> Some NonNumeric"
  shows "map_of (process_expense b e) n =
    (let ps = parse_participants (participants e);
         share = fdiv (Number_of (amount e)) (of_nat (length ps));
         d = debited_from (current b n) share (count_list ps n)
     in if n = payerName e then Some (Number (fadd d (Number_of (amount e))))
        else if n \<in> set ps then Some (Number d)
        else map_of b n)"
proof -
  define qs where "qs = parse_participants (participants e)"
  define share where "share = fdiv (Number_of (amount e)) (of_nat (length qs))"
  define b' where "b' = foldl (\<lambda>b p. addBalance b p (- share)) b qs"
  have acc: "process_expense b e = addBalance b' (payerName e) (Number_of (amount e))"
    using ps by (simp add: process_expense_def Let_def qs_def share_def b'_def)
  have look: "map_of b' n =
      (if n \<in> set qs then Some (Number (debited_from (current b n) share (count_list qs n)))
       else map_of b n)"
    unfolding b'_def using foldl_addBalance_lookup [OF n b, of "- share" qs]
    by (simp add: debited_from_def)
  then have cur: "current b' n = debited_from (current b n) share (count_list qs n)"
    by (auto simp: current_def debited_from_def count_list_0_iff)
  show ?thesis
  proof (cases "n = payerName e")
    case True
    from look b have "map_of b' n \<noteq> Some NonNumeric" by (simp split: if_splits)
    from addBalance_same [OF n this] True cur show ?thesis
      by (simp add: acc Let_def qs_def share_def)
  next
    case False
    then show ?thesis
      by (simp add: acc addBalance_other look Let_def qs_def share_def)
  qed
qed

lemma expense_balance:
  assumes "parse_participants (participants e) \<noteq> []" "n \<notin> set Object_prototype_keys"
  shows "map_of (accumulate (es @ [e])) n =
    (let ps = parse_participants (participants e);
         share = fdiv (Number_of (amount e)) (of_nat (length ps));
         d = debited_from (current (accumulate es) n) share (count_list ps n)
     in if n = payerName e then Some (Number (fadd d (Number_of (amount e))))
        else if n \<in> set ps then Some (Number d)
        else map_of (accumulate es) n)"
  unfolding accumulate_snoc
  by (rule process_expense_balance [OF assms accumulate_numeric [OF assms(2)]])


section \<open>Worked inputs\<close>

lemma dinner_form_eq:
  "dinner_form =
     \<lparr>payerName = ''A'', amount = 30, description = ''dinner'', participants = ''A,B''\<rparr>"
  by code_simp

lemma dinner_form_result:
  "calculateSettlements [dinner_form] =
     \<lparr>resp_balances = [(''A'', Number 15), (''B'', Number (- 15))],
      resp_settlements = [\<lparr>from_name = ''B'', to_name = ''A'', settled = 15\<rparr>]\<rparr>"
  by code_simp

lemma dinner_raw_result:
  "calculateSettlements [dinner_raw] =
     \<lparr>resp_balances = [(''A:1'', Number (- 15)), (''B:2'', Number (- 15)), (''A'', Number 30)],
      resp_settlements =
        [\<lparr>from_name = ''A:1'', to_name = ''A'', settled = 15\<rparr>,
         \<lparr>from_name = ''B:2'', to_name = ''A'', settled = 15\<rparr>]\<rparr>"
  by code_simp

lemma repeated_parse:
  "parse_participants (participants dinner_repeated) = [''A'', ''B'', ''B'']"
  by code_simp

lemma repeated_debit:
  "(let ps = parse_participants (participants dinner_repeated);
        share = fdiv (Number_of (amount dinner_repeated)) (of_nat (length ps));
        d = debited_from (current (accumulate []) ''B'') share (count_list ps ''B'')
    in if ''B'' = payerName dinner_repeated
       then Some (Number (fadd d (Number_of (amount dinner_repeated))))
       else if ''B'' \<in> set ps then Some (Number d)
       else map_of (accumulate []) ''B'') = Some (Number (- 20))"
  by code_simp

lemma plain_name: "''B'' \<notin> set Object_prototype_keys"
  by (simp add: Object_prototype_keys_def)

lemma thirds_balances:
  "accumulate thirds =
     [(''A'', Number (2345624805922133 / 35184372088832)),
      (''B'', Number (- (4691249611844267 / 140737488355328))),
      (''C'', Number (- (4691249611844267 / 140737488355328)))]"
  by code_simp

lemma thirds_not_two_decimal:
  "\<not> two_decimal (Number (2345624805922133 / 35184372088832))"
  by code_simp

lemma thirds_creditors:
  "creditors_of (accumulate thirds) = [\<lparr>party_name = ''A'', party_amount = fl (6667 / 100)\<rparr>]"
  unfolding thirds_balances by code_simp

lemma outing_result:
  "calculateSettlements outing =
     \<lparr>resp_balances = [(''Ann'', Number 0), (''Cy'', Number (- 20)), (''Bob'', Number 20)],
      resp_settlements = [\<lparr>from_name = ''Cy'', to_name = ''Bob'', settled = 20\<rparr>]\<rparr>"
  by code_simp

lemma outing_balances:
  "accumulate outing = [(''Ann'', Number 0), (''Cy'', Number (- 20)), (''Bob'', Number 20)]"
  using resp_balances_eq [of outing] by (simp add: outing_result)

lemma round2_zero: "round2 0 = 0"
  by code_simp


section \<open>The claims\<close>

text \<open>
  C1 (as amended). The computation has no weights. This is about the names that
  \<open>Object.prototype\<close> does not have (the twelve of \<open>Object_prototype_keys\<close>, such as
  \<open>constructor\<close>, \<open>toString\<close> and \<open>__proto__\<close>); nothing is said here of the balance
  of a name that it has. An expense with a non-empty parsed participant list \<open>ps\<close> is
  split evenly over the entries of \<open>ps\<close>: the share is the amount divided by the number
  of entries, and for every name that \<open>Object.prototype\<close> does not have, the running
  total is debited one share for each entry of \<open>ps\<close> that names it and, if it is the
  payer, is then credited the amount; when it is neither the payer nor in \<open>ps\<close>, its
  running total stays as it is. So such a name carries a weight only by being listed
  several times, and \<open>name:weight\<close> is a name like any other. For payer \<open>A\<close>, amount
  30.00 and the form input \<open>A:1,B:2\<close>, which the front end posts as the names \<open>A\<close>,
  \<open>B\<close>, the result is \<open>A\<close> 15.00, \<open>B\<close> -15.00 and the one transfer \<open>B\<close> to \<open>A\<close> of
  15.00.
\<close>

theorem equal_split_per_entry:
  "(\<forall>es e n.
      parse_participants (participants e) \<noteq> [] \<longrightarrow> n \<notin> set Object_prototype_keys \<longrightarrow>
      map_of (accumulate (es @ [e])) n =
        (let ps = parse_participants (participants e);
             share = fdiv (Number_of (amount e)) (of_nat (length ps));
             d = debited_from (current (accumulate es) n) share (count_list ps n)
         in if n = payerName e then Some (Number (fadd d (Number_of (amount e))))
            else if n \<in> set ps then Some (Number d)
            else map_of (accumulate es) n))
   \<and> calculateSettlements [dinner_form] =
       \<lparr>resp_balances = [(''A'', Number 15), (''B'', Number (- 15))],
        resp_settlements = [\<lparr>from_name = ''B'', to_name = ''A'', settled = 15\<rparr>]\<rparr>"
  using expense_balance dinner_form_result by blast

text \<open>
  C1, an instance: with the participants stored as \<open>A,B,B\<close> the name \<open>B\<close> is listed
  twice and is debited two shares of 10.00.
\<close>

theorem equal_split_per_entry_witness:
  "parse_participants (participants dinner_repeated) = [''A'', ''B'', ''B'']
   \<and> ''B'' \<notin> set Object_prototype_keys
   \<and> map_of (accumulate [dinner_repeated]) ''B'' = Some (Number (- 20))"
proof -
  have ne: "parse_participants (participants dinner_repeated) \<noteq> []"
    by (simp add: repeated_parse)
  from equal_split_per_entry [THEN conjunct1, rule_format, OF ne plain_name, of "[]"]
  have "map_of (accumulate ([] @ [dinner_repeated])) ''B'' = Some (Number (- 20))"
    by (simp only: repeated_debit)
  then have "map_of (accumulate [dinner_repeated]) ''B'' = Some (Number (- 20))"
    by simp
  with repeated_parse plain_name show ?thesis by simp
qed

text \<open>
  C1 as stated fails: for payer \<open>A\<close>, amount 30.00 and participants \<open>A\<close> with weight 1
  and \<open>B\<close> with weight 2, the result is not \<open>A\<close> 20.00, \<open>B\<close> -20.00 with one transfer of
  20.00, neither for what the form posts nor for the string \<open>A:1,B:2\<close> stored as it is.
\<close>

theorem weights_not_applied:
  "participants dinner_form = ''A,B''
   \<and> map_of (resp_balances (calculateSettlements [dinner_form])) ''A'' = Some (Number 15)
   \<and> map_of (resp_balances (calculateSettlements [dinner_form])) ''B'' = Some (Number (- 15))
   \<and> resp_settlements (calculateSettlements [dinner_form])
       = [\<lparr>from_name = ''B'', to_name = ''A'', settled = 15\<rparr>]
   \<and> map_of (resp_balances (calculateSettlements [dinner_raw])) ''A'' = Some (Number 30)
   \<and> map_of (resp_balances (calculateSettlements [dinner_raw])) ''B'' = None
   \<and> resp_settlements (calculateSettlements [dinner_raw])
       = [\<lparr>from_name = ''A:1'', to_name = ''A'', settled = 15\<rparr>,
          \<lparr>from_name = ''B:2'', to_name = ''A'', settled = 15\<rparr>]"
proof -
  have "participants dinner_form = ''A,B''"
    by (simp add: dinner_form_eq)
  then show ?thesis
    by (simp add: dinner_form_result dinner_raw_result)
qed

text \<open>
  C2 (as amended). The balances that are returned are the running totals as the loop
  over the expenses left them. The rounding to two decimals is applied in the partition
  only: a creditor starts with the rounding of its running total, which is positive, and
  a debtor with the negated rounding of its running total, which is negative.
\<close>

theorem rounding_in_partition:
  "resp_balances (calculateSettlements es) = accumulate es
   \<and> (\<forall>p \<in> set (creditors_of (accumulate es)).
         \<exists>x. map_of (accumulate es) (party_name p) = Some (Number x)
           \<and> party_amount p = round2 x \<and> 0 < round2 x)
   \<and> (\<forall>p \<in> set (debtors_of (accumulate es)).
         \<exists>x. map_of (accumulate es) (party_name p) = Some (Number x)
           \<and> party_amount p = - round2 x \<and> round2 x < 0)"
  using resp_balances_eq creditor_amount [OF accumulate_distinct]
    debtor_amount [OF accumulate_distinct]
  by blast

text \<open>
  C2, an instance: 100.00 paid by \<open>A\<close> for \<open>A\<close>, \<open>B\<close>, \<open>C\<close>. The creditor \<open>A\<close> starts with
  66.67 and the balance returned for \<open>A\<close> is 66.66666666666666.
\<close>

theorem rounding_in_partition_witness:
  "\<lparr>party_name = ''A'', party_amount = fl (6667 / 100)\<rparr> \<in> set (creditors_of (accumulate thirds))
   \<and> map_of (resp_balances (calculateSettlements thirds)) ''A''
        = Some (Number (2345624805922133 / 35184372088832))
   \<and> fl (6667 / 100) = round2 (2345624805922133 / 35184372088832)"
proof -
  have m: "\<lparr>party_name = ''A'', party_amount = fl (6667 / 100)\<rparr>
      \<in> set (creditors_of (accumulate thirds))"
    by (simp add: thirds_creditors)
  from rounding_in_partition [of thirds, THEN conjunct2, THEN conjunct1, rule_format, OF m]
  obtain x where x: "map_of (accumulate thirds) ''A'' = Some (Number x)"
      "fl (6667 / 100) = round2 x"
    by auto
  have a: "map_of (accumulate thirds) ''A''
      = Some (Number (2345624805922133 / 35184372088832))"
    by (simp add: thirds_balances)
  from x(1) a have "x = 2345624805922133 / 35184372088832"
    by (simp only: option.inject jsvalue.inject)
  with x(2) have r: "fl (6667 / 100) = round2 (2345624805922133 / 35184372088832)"
    by (simp only:)
  from m a r show ?thesis
    by (simp only: resp_balances_eq simp_thms)
qed

text \<open>
  C2 as stated fails: for 100.00 paid by \<open>A\<close> for \<open>A\<close>, \<open>B\<close>, \<open>C\<close> the balance returned
  for \<open>A\<close> is not a value with two decimals.
\<close>

theorem balances_not_rounded:
  "\<not> (\<forall>v \<in> snd ` set (resp_balances (calculateSettlements thirds)). two_decimal v)"
proof
  assume "\<forall>v \<in> snd ` set (resp_balances (calculateSettlements thirds)). two_decimal v"
  then have "two_decimal (Number (2345624805922133 / 35184372088832))"
    by (simp add: resp_balances_eq thirds_balances)
  with thirds_not_two_decimal show False ..
qed

text \<open>
  C3, the code at a failing input: \<open>Ann\<close> paid 0.10 and \<open>Bob\<close> 0.20 for \<open>Dan\<close>, \<open>Cy\<close> paid
  0.50 for \<open>Eve\<close>. After \<open>Dan\<close> has paid \<open>Ann\<close>, he owes \<open>0.3 - 0.1\<close>, which is below
  \<open>0.2\<close> in binary64; \<open>Bob\<close> is left with a remainder of \<open>2^-55\<close>, which is not \<open>0\<close>, and
  the next pass emits a transfer from \<open>Eve\<close> to \<open>Bob\<close> whose amount rounds to 0.
\<close>

theorem zero_amount_transfer:
  "resp_settlements (calculateSettlements small_change) =
     [\<lparr>from_name = ''Dan'', to_name = ''Ann'', settled = fl (1 / 10)\<rparr>,
      \<lparr>from_name = ''Dan'', to_name = ''Bob'', settled = fl (2 / 10)\<rparr>,
      \<lparr>from_name = ''Eve'', to_name = ''Bob'', settled = 0\<rparr>,
      \<lparr>from_name = ''Eve'', to_name = ''Cy'', settled = 1 / 2\<rparr>]"
  by code_simp

text \<open>
  C4, the code at a failing input: \<open>A\<close> paid 90.00 for a participant named
  \<open>__proto__\<close>. The debit is dropped, \<open>A\<close> alone is in the balances with 90.00, and
  the rounded balances do not add up to zero within one cent for each name.
\<close>

theorem debit_lost_on_prototype_key:
  "accumulate lost_debit = [(''A'', Number 90)]
   \<and> rounded_total (accumulate lost_debit) = 90
   \<and> \<not> conserved lost_debit"
  by code_simp

text \<open>
  C5. One expense, payer \<open>A\<close>, amount 90.00, participants \<open>A\<close>, \<open>B\<close>, \<open>C\<close>, whatever
  its description: the balances
  are \<open>A\<close> 60.00, \<open>B\<close> -30.00, \<open>C\<close> -30.00 and the transfers are \<open>B\<close> to \<open>A\<close> 30.00, then
  \<open>C\<close> to \<open>A\<close> 30.00.
\<close>

theorem equal_split_example:
  "calculateSettlements
     [\<lparr>payerName = ''A'', amount = 90, description = d, participants = ''A,B,C''\<rparr>]
   = \<lparr>resp_balances = [(''A'', Number 60), (''B'', Number (- 30)), (''C'', Number (- 30))],
      resp_settlements =
        [\<lparr>from_name = ''B'', to_name = ''A'', settled = 30\<rparr>,
         \<lparr>from_name = ''C'', to_name = ''A'', settled = 30\<rparr>]\<rparr>"
  by code_simp

text \<open>
  C6. From the debtors \<open>D1\<close> 40, \<open>D2\<close> 10 and the creditors \<open>C1\<close> 30, \<open>C2\<close> 20 the loop
  emits \<open>D1\<close> to \<open>C1\<close> 30.00, \<open>D1\<close> to \<open>C2\<close> 10.00, \<open>D2\<close> to \<open>C2\<close> 10.00 and ends with
  both cursors at the end of their lists, every remaining amount \<open>0\<close>.
\<close>

theorem greedy_matching_example:
  "settle_loop
     \<lparr>debtors = [\<lparr>party_name = ''D1'', party_amount = 40\<rparr>,
                 \<lparr>party_name = ''D2'', party_amount = 10\<rparr>],
      creditors = [\<lparr>party_name = ''C1'', party_amount = 30\<rparr>,
                   \<lparr>party_name = ''C2'', party_amount = 20\<rparr>],
      cursor_i = 0, cursor_j = 0, settlements = []\<rparr>
   = \<lparr>debtors = [\<lparr>party_name = ''D1'', party_amount = 0\<rparr>,
                 \<lparr>party_name = ''D2'', party_amount = 0\<rparr>],
      creditors = [\<lparr>party_name = ''C1'', party_amount = 0\<rparr>,
                   \<lparr>party_name = ''C2'', party_amount = 0\<rparr>],
      cursor_i = 2, cursor_j = 2,
      settlements =
        [\<lparr>from_name = ''D1'', to_name = ''C1'', settled = 30\<rparr>,
         \<lparr>from_name = ''D1'', to_name = ''C2'', settled = 10\<rparr>,
         \<lparr>from_name = ''D2'', to_name = ''C2'', settled = 10\<rparr>]\<rparr>"
  by code_simp

text \<open>
  C7 (as amended). The number of transfers is at most the number of debtors plus the
  number of creditors minus one when there is a debtor or a creditor, and zero when
  there is none: it is at most the larger of 0 and that number.
\<close>

theorem transfers_bound:
  "int (length (resp_settlements (calculateSettlements es)))
     \<le> max 0 (int (card {n. owes es n}) + int (card {n. is_owed es n}) - 1)"
proof (cases "in_range (initial_state (accumulate es))")
  case True
  from settle_loop_count [OF True]
  have "length (resp_settlements (calculateSettlements es)) + 1
      \<le> length (debtors_of (accumulate es)) + length (creditors_of (accumulate es))"
    by (simp add: resp_settlements_eq initial_state_def remaining_def)
  then show ?thesis
    by (simp add: debtors_count creditors_count)
next
  case False
  then have "resp_settlements (calculateSettlements es) = []"
    by (simp add: resp_settlements_eq settle_loop_out_of_range initial_state_def)
  then show ?thesis by simp
qed

text \<open>
  C7 as stated fails on the empty list of expenses: no debtor, no creditor and no
  transfer, and 0 is not at most -1.
\<close>

theorem transfers_bound_fails_on_empty:
  "\<not> int (length (resp_settlements (calculateSettlements [])))
      \<le> int (card {n. owes [] n}) + int (card {n. is_owed [] n}) - 1"
proof -
  have "accumulate [] = []" by (simp add: accumulate_def)
  then have "{n. owes [] n} = {}" "{n. is_owed [] n} = {}"
    by (simp_all add: owes_def is_owed_def rounded_balance_def)
  then show ?thesis by simp
qed

text \<open>
  C8. Every transfer goes from a name whose rounded accumulated balance is negative to a
  name whose rounded accumulated balance is positive; the two names differ, and no name
  is both.
\<close>

theorem transfer_endpoints:
  "(\<forall>t \<in> set (resp_settlements (calculateSettlements es)).
      owes es (from_name t) \<and> is_owed es (to_name t) \<and> from_name t \<noteq> to_name t)
   \<and> (\<forall>n. \<not> (owes es n \<and> is_owed es n))"
proof -
  have both: "\<not> (owes es n \<and> is_owed es n)" for n
    by (cases "rounded_balance es n") (simp_all add: owes_def is_owed_def)
  have "owes es (from_name t) \<and> is_owed es (to_name t) \<and> from_name t \<noteq> to_name t"
    if t: "t \<in> set (resp_settlements (calculateSettlements es))" for t
  proof -
    from transfer_names(1) [OF t] have o: "owes es (from_name t)"
      by (simp only: debtor_names_set mem_Collect_eq)
    from transfer_names(2) [OF t] have i: "is_owed es (to_name t)"
      by (simp only: creditor_names_set mem_Collect_eq)
    from o i both [of "from_name t"] have "from_name t \<noteq> to_name t"
      by auto
    with o i show ?thesis by simp
  qed
  with both show ?thesis by blast
qed

text \<open>
  C8, an instance: \<open>Ann\<close> paid 10.00 for herself and \<open>Bob\<close> paid 20.00 for \<open>Cy\<close>; the
  one transfer is from \<open>Cy\<close> to \<open>Bob\<close>.
\<close>

theorem transfer_endpoints_witness:
  "\<lparr>from_name = ''Cy'', to_name = ''Bob'', settled = 20\<rparr>
      \<in> set (resp_settlements (calculateSettlements outing))
   \<and> owes outing ''Cy'' \<and> is_owed outing ''Bob'' \<and> ''Cy'' \<noteq> ''Bob''"
  using transfer_endpoints [of outing] by (simp add: outing_result)

text \<open>
  C9. For participants that are non-empty, have no comma and neither begin nor end with
  white space, the list parsed back from the stored string is the list that was given.
\<close>

theorem participants_round_trip:
  assumes "\<forall>p \<in> set (dto_participants dto).
     p \<noteq> [] \<and> CHR '','' \<notin> set p \<and> \<not> is_white_space (hd p) \<and> \<not> is_white_space (last p)"
  shows "parse_participants (participants (create dto)) = dto_participants dto"
proof (cases "dto_participants dto = []")
  case True
  then show ?thesis by (simp add: parse_participants_def create_def trim_def)
next
  case False
  from assms have "split_on CHR '','' (join CHR '','' (dto_participants dto)) = dto_participants dto"
    using False by (intro split_on_join) auto
  moreover from assms have "map trim (dto_participants dto) = dto_participants dto"
    by (intro map_idI trim_id) auto
  moreover from assms have "filter (\<lambda>p. p \<noteq> []) (dto_participants dto) = dto_participants dto"
    by (intro filter_True) auto
  ultimately show ?thesis by (simp add: parse_participants_def create_def)
qed

text \<open>C9, an instance: three names, one with a space inside.\<close>

theorem participants_round_trip_witness:
  "participants (create trip_dto) = ''Ann,Bob Lee,Cy''
   \<and> parse_participants (participants (create trip_dto)) = [''Ann'', ''Bob Lee'', ''Cy'']"
proof -
  have h: "\<forall>p \<in> set (dto_participants trip_dto).
      p \<noteq> [] \<and> CHR '','' \<notin> set p \<and> \<not> is_white_space (hd p) \<and> \<not> is_white_space (last p)"
    by (simp add: trip_dto_def is_white_space_def)
  have c: "participants (create trip_dto) = ''Ann,Bob Lee,Cy''"
    by (simp add: trip_dto_def create_def)
  from participants_round_trip [OF h] c show ?thesis
    by (simp add: trip_dto_def)
qed

text \<open>
  C10. A name whose rounded accumulated balance is zero is in no transfer, and the names
  in the transfers are names of the debtor list, for \<open>from\<close>, and of the creditor list,
  for \<open>to\<close>.
\<close>

theorem settled_names_absent:
  "(\<forall>n. rounded_balance es n = Some 0 \<longrightarrow>
      (\<forall>t \<in> set (resp_settlements (calculateSettlements es)).
         from_name t \<noteq> n \<and> to_name t \<noteq> n))
   \<and> (\<forall>t \<in> set (resp_settlements (calculateSettlements es)).
         from_name t \<in> set (map party_name (debtors_of (accumulate es)))
         \<and> to_name t \<in> set (map party_name (creditors_of (accumulate es))))"
proof -
  have "from_name t \<noteq> n \<and> to_name t \<noteq> n"
    if z: "rounded_balance es n = Some 0"
      and t: "t \<in> set (resp_settlements (calculateSettlements es))" for n t
  proof -
    from transfer_names(1) [OF t] have "owes es (from_name t)"
      by (simp only: debtor_names_set mem_Collect_eq)
    moreover from transfer_names(2) [OF t] have "is_owed es (to_name t)"
      by (simp only: creditor_names_set mem_Collect_eq)
    moreover from z have "\<not> owes es n" "\<not> is_owed es n"
      by (simp_all add: owes_def is_owed_def)
    ultimately show ?thesis by auto
  qed
  then show ?thesis
    using transfer_names by blast
qed

text \<open>
  C10, an instance: \<open>Ann\<close> paid 10.00 for herself, her rounded balance is zero and she
  is not in the transfer from \<open>Cy\<close> to \<open>Bob\<close>.
\<close>

theorem settled_names_absent_witness:
  "rounded_balance outing ''Ann'' = Some 0
   \<and> \<lparr>from_name = ''Cy'', to_name = ''Bob'', settled = 20\<rparr>
        \<in> set (resp_settlements (calculateSettlements outing))
   \<and> ''Cy'' \<noteq> ''Ann'' \<and> ''Bob'' \<noteq> ''Ann''
   \<and> ''Cy'' \<in> set (map party_name (debtors_of (accumulate outing)))
   \<and> ''Bob'' \<in> set (map party_name (creditors_of (accumulate outing)))"
proof -
  have z: "rounded_balance outing ''Ann'' = Some 0"
    by (simp add: rounded_balance_def outing_balances rounded_def round2_zero)
  have t: "\<lparr>from_name = ''Cy'', to_name = ''Bob'', settled = 20\<rparr>
      \<in> set (resp_settlements (calculateSettlements outing))"
    by (simp add: outing_result)
  from settled_names_absent [of outing] z t show ?thesis
    by fastforce
qed

end
